theory Spec2Isabelle
  imports Main
begin

text \<open>
  A model of \<open>YahooFinanceScraper\<close> (\<open>src/main.py\<close>): page extraction, pagination,
  navigation, \<open>close\<close> and the generator \<open>run\<close>. The browser is outside the
  program, so every call into the driver is given by its outcome, a value or an
  exception, and the functions below are the code between those calls: its
  loops, its \<open>try\<close> blocks with their handlers, and the one list object it shares
  with its caller.
\<close>

section \<open>Values shared by the scraper's operations\<close>

text \<open>
  Python's \<open>str\<close> is a sequence of Unicode code points; a string is the list of
  its code points. \<open>str_of\<close> reads an ASCII literal as such a list.
\<close>

type_synonym pystr = "nat list"

definition str_of :: "string \<Rightarrow> pystr" where
  "str_of s = map of_char s"

text \<open>
  The exceptions the code names in its \<open>except\<close> clauses, and the other
  classes derived from \<open>Exception\<close> that its own expressions can raise. Every
  value of the type is caught by \<open>except Exception\<close>.
\<close>

datatype exn =
    TimeoutException
  | StaleElementReferenceException
  | NoSuchElementException
  | WebDriverException
  | TypeError
  | IndexError
  | RecursionError
  | OtherException

text \<open>What a call returns: \<open>Inl e\<close> when it raises \<open>e\<close>, \<open>Inr v\<close> when it returns \<open>v\<close>.\<close>

type_synonym 'a res = "exn + 'a"

definition bind_res :: "'a res \<Rightarrow> ('a \<Rightarrow> 'b res) \<Rightarrow> 'b res" where
  "bind_res m f = (case m of Inl e \<Rightarrow> Inl e | Inr v \<Rightarrow> f v)"

text \<open>
  \<open>str.strip()\<close> with no argument removes leading and trailing whitespace, the
  code points for which \<open>str.isspace\<close> holds.
\<close>

definition isspace :: "nat \<Rightarrow> bool" where
  "isspace c \<longleftrightarrow>
     (9 \<le> c \<and> c \<le> 13) \<or> (28 \<le> c \<and> c \<le> 32) \<or> c = 133 \<or> c = 160 \<or> c = 5760 \<or>
     (8192 \<le> c \<and> c \<le> 8202) \<or> c = 8232 \<or> c = 8233 \<or> c = 8239 \<or> c = 8287 \<or>
     c = 12288"

definition strip :: "pystr \<Rightarrow> pystr" where
  "strip s = rev (dropWhile isspace (rev (dropWhile isspace s)))"

text \<open>The test \<open>sub in s\<close> on two strings: \<open>sub\<close> occurs in \<open>s\<close> as a substring.\<close>

fun contains :: "pystr \<Rightarrow> pystr \<Rightarrow> bool" where
  "contains sub [] = (sub = [])"
| "contains sub (c # cs) = (take (length sub) (c # cs) = sub \<or> contains sub cs)"

section \<open>Page extraction: \<open>scrape_current_page\<close>\<close>

text \<open>
  What one run of the body of \<open>scrape_current_page\<close> finds in the browser. Each
  driver call either returns or raises, so each observation is a \<open>res\<close>:
  \<^item> a cell is the outcome of reading \<open>.text\<close> of one \<open>td\<close> element;
  \<^item> a row is the outcome of \<open>row.find_elements(By.TAG_NAME, "td")\<close>;
  \<^item> \<open>table_visible\<close> is the outcome of \<open>self._wait_visible(self.TABLE)\<close>;
  \<^item> \<open>table_rows\<close> is the outcome of \<open>self.driver.find_elements(*self.TABLE_ROWS)\<close>.
\<close>

type_synonym cell = "pystr res"

type_synonym row = "cell list res"

record page_obs =
  table_visible :: "unit res"
  table_rows :: "row list res"

text \<open>
  A \<open>RawRow\<close> is the dict literal \<open>stock_data\<close>: its keys in insertion order, each
  with the string stored under it.
\<close>

type_synonym raw_row = "(string \<times> pystr) list"

text \<open>\<open>cols[i].text.strip()\<close>: indexing raises \<open>IndexError\<close> out of range.\<close>

definition cell_text :: "cell list \<Rightarrow> nat \<Rightarrow> pystr res" where
  "cell_text cols i =
     (if i < length cols then bind_res (cols ! i) (\<lambda>t. Inr (strip t)) else Inl IndexError)"

text \<open>The dict literal of lines 159-167; its values are evaluated in the order written.\<close>

definition stock_data :: "cell list \<Rightarrow> raw_row res" where
  "stock_data cols =
     bind_res (cell_text cols 0) (\<lambda>symbol.
     bind_res (cell_text cols 1) (\<lambda>name.
     bind_res (cell_text cols 3) (\<lambda>price.
     bind_res (cell_text cols 4) (\<lambda>change.
     bind_res (cell_text cols 6) (\<lambda>volume.
     bind_res (cell_text cols 8) (\<lambda>market_cap.
     bind_res (cell_text cols 9) (\<lambda>pe_ratio.
       Inr [(''symbol'', symbol), (''name'', name), (''price'', price),
            (''change'', change), (''volume'', volume),
            (''market_cap'', market_cap), (''pe_ratio'', pe_ratio)])))))))"

text \<open>
  The \<open>for row in rows\<close> loop, with \<open>data\<close> as the list built so far. It returns
  \<open>data\<close> as it stands when the loop ends or is left, and the exception that left
  it, if any: the handlers of \<open>scrape_current_page\<close> need both.
\<close>

fun scrape_rows :: "row list \<Rightarrow> raw_row list \<Rightarrow> raw_row list \<times> exn option" where
  "scrape_rows [] data = (data, None)"
| "scrape_rows (r # rows) data =
     (case r of
        Inl e \<Rightarrow> (data, Some e)
      | Inr cols \<Rightarrow>
          if length cols < 10 then scrape_rows rows data
          else (case stock_data cols of
                  Inl e \<Rightarrow> (data, Some e)
                | Inr sd \<Rightarrow> scrape_rows rows (data @ [sd])))"

text \<open>The \<open>try\<close> body of \<open>scrape_current_page\<close>, lines 148-168, run once.\<close>

definition scrape_attempt :: "page_obs \<Rightarrow> raw_row list \<times> exn option" where
  "scrape_attempt p =
     (case table_visible p of
        Inl e \<Rightarrow> ([], Some e)
      | Inr _ \<Rightarrow>
          (case table_rows p of
             Inl e \<Rightarrow> ([], Some e)
           | Inr rows \<Rightarrow> scrape_rows rows []))"

text \<open>
  \<open>scrape_current_page\<close>. The browser is read once per attempt: \<open>pages k\<close> is what
  the \<open>k\<close>-th attempt finds, and the result carries the number of the next attempt.
  On \<open>StaleElementReferenceException\<close> the function calls itself from inside the
  handler and returns what the call returns (the \<open>data\<close> of the stale attempt is
  dropped); on any other exception it logs and returns \<open>data\<close> as far as it was
  built.

  The code has no retry counter, but each retry is a call nested in the one
  before, and the interpreter allows only so many nested calls
  (\<open>sys.getrecursionlimit()\<close>, 1000 unless changed, less the frames in use where
  the scraper is called). \<open>room\<close> is the number of nested calls of
  \<open>scrape_current_page\<close> that this limit still allows. A call made with no room
  left raises \<open>RecursionError\<close>. Raised inside the handler of
  \<open>StaleElementReferenceException\<close>, it is not caught by the handler
  \<open>except Exception\<close> beside it, and it leaves every enclosing call in the same
  way, so it leaves \<open>scrape_current_page\<close>.
\<close>

fun scrape_current_page ::
    "nat \<Rightarrow> (nat \<Rightarrow> page_obs) \<Rightarrow> nat \<Rightarrow> raw_row list res \<times> nat" where
  "scrape_current_page 0 pages k = (Inl RecursionError, k)"
| "scrape_current_page (Suc room) pages k =
     (case scrape_attempt (pages k) of
        (data, None) \<Rightarrow> (Inr data, Suc k)
      | (data, Some e) \<Rightarrow>
          if e = StaleElementReferenceException
          then scrape_current_page room pages (Suc k)
          else (Inr data, Suc k))"

section \<open>Pagination: \<open>go_to_next_page\<close>\<close>

text \<open>
  What one call of \<open>go_to_next_page\<close> finds in the browser:
  \<^item> \<open>first_rows\<close>: the outcome of \<open>self.driver.find_elements(*self.TABLE_ROWS)\<close>,
    each element found given by the outcome of reading its \<open>.text\<close>;
  \<^item> \<open>next_button\<close>: the outcome of \<open>self._wait_clickable(self.NEXT_BUTTON, timeout=5)\<close>,
    which raises \<open>TimeoutException\<close> when the control is absent or does not become
    clickable in time;
  \<^item> \<open>button_class\<close>: the outcome of \<open>btn.get_attribute("class")\<close>, \<open>None\<close> when
    the element has no such attribute;
  \<^item> \<open>scroll_script\<close>, \<open>click_script\<close>: the outcomes of the two \<open>execute_script\<close> calls;
  \<^item> \<open>polls\<close>: what \<open>find_elements\<close> gives at each poll of the wait of lines
    203-205 before its ten seconds are over.
\<close>

type_synonym found_rows = "pystr res list res"

record next_obs =
  first_rows :: found_rows
  next_button :: "unit res"
  button_class :: "pystr option res"
  scroll_script :: "unit res"
  click_script :: "unit res"
  polls :: "found_rows list"

text \<open>
  \<open>_has_table_changed\<close>: the \<open>try\<close> body, then the handler of
  \<open>StaleElementReferenceException\<close>; any other exception leaves the function.
\<close>

definition has_table_changed_body :: "found_rows \<Rightarrow> pystr \<Rightarrow> bool res" where
  "has_table_changed_body found old_first_row_text =
     bind_res found (\<lambda>rows.
       case rows of
         [] \<Rightarrow> Inr False
       | r # _ \<Rightarrow> bind_res r (\<lambda>t. Inr (t \<noteq> old_first_row_text)))"

definition has_table_changed :: "found_rows \<Rightarrow> pystr \<Rightarrow> bool res" where
  "has_table_changed found old_first_row_text =
     (case has_table_changed_body found old_first_row_text of
        Inl e \<Rightarrow> if e = StaleElementReferenceException then Inr False else Inl e
      | Inr b \<Rightarrow> Inr b)"

text \<open>
  \<open>WebDriverWait(driver, timeout).until(method)\<close>: it calls \<open>method\<close> at each poll,
  returns at the first true value, passes over \<open>NoSuchElementException\<close> (its
  default ignored exception), lets any other exception through, and raises
  \<open>TimeoutException\<close> when the time is over.
\<close>

fun wait_until :: "('o \<Rightarrow> bool res) \<Rightarrow> 'o list \<Rightarrow> unit res" where
  "wait_until method [] = Inl TimeoutException"
| "wait_until method (p # ps) =
     (case method p of
        Inr b \<Rightarrow> if b then Inr () else wait_until method ps
      | Inl e \<Rightarrow> if e = NoSuchElementException then wait_until method ps else Inl e)"

text \<open>\<open>first_rows[0].text if first_rows else None\<close>.\<close>

definition first_row_text :: "pystr res list \<Rightarrow> pystr option res" where
  "first_row_text rows =
     (case rows of [] \<Rightarrow> Inr None | r # _ \<Rightarrow> bind_res r (\<lambda>t. Inr (Some t)))"

text \<open>\<open>"disabled" in c\<close>, where \<open>c\<close> may be \<open>None\<close>: then the test raises \<open>TypeError\<close>.\<close>

definition disabled_in :: "pystr option \<Rightarrow> bool res" where
  "disabled_in c =
     (case c of None \<Rightarrow> Inl TypeError | Some s \<Rightarrow> Inr (contains (str_of ''disabled'') s))"

text \<open>
  The \<open>try\<close> body of \<open>go_to_next_page\<close>, lines 185-207. The test
  \<open>if first_row_check:\<close> is false for \<open>None\<close> and for the empty string.
\<close>

definition go_to_next_page_body :: "next_obs \<Rightarrow> bool res" where
  "go_to_next_page_body obs =
     bind_res (first_rows obs) (\<lambda>rows.
     bind_res (first_row_text rows) (\<lambda>first_row_check.
     bind_res (next_button obs) (\<lambda>btn.
     bind_res (button_class obs) (\<lambda>c.
     bind_res (disabled_in c) (\<lambda>disabled.
       if disabled then Inr False
       else
         bind_res (scroll_script obs) (\<lambda>_.
         bind_res (click_script obs) (\<lambda>_.
           case first_row_check of
             None \<Rightarrow> Inr True
           | Some old \<Rightarrow>
               if old = [] then Inr True
               else bind_res (wait_until (\<lambda>p. has_table_changed p old) (polls obs))
                      (\<lambda>_. Inr True))))))))"

text \<open>
  \<open>go_to_next_page\<close>: the body under its two handlers, \<open>except TimeoutException\<close>
  and \<open>except Exception\<close>, both of which return \<open>False\<close>.
\<close>

definition go_to_next_page :: "next_obs \<Rightarrow> bool res" where
  "go_to_next_page obs =
     (case go_to_next_page_body obs of
        Inl e \<Rightarrow> if e = TimeoutException then Inr False else Inr False
      | Inr b \<Rightarrow> Inr b)"

section \<open>Navigation: \<open>navigate_to_most_active\<close>\<close>

text \<open>
  The outcome of each driver interaction of the navigation, in the order of lines
  114-139: loading the base URL, the ready-state waits, the visibility and
  clickability waits, the hovers and the clicks.
\<close>

record nav_obs =
  get_base :: "unit res"
  ready_after_get :: "unit res"
  nav_container :: "unit res"
  markets_visible :: "unit res"
  markets_hover :: "unit res"
  stocks_visible :: "unit res"
  stocks_hover :: "unit res"
  trending_clickable :: "unit res"
  trending_click :: "unit res"
  ready_after_trending :: "unit res"
  tab_clickable :: "unit res"
  tab_scroll :: "unit res"
  tab_click :: "unit res"
  ready_after_tab :: "unit res"

text \<open>\<open>_wait_for_page_load\<close>: a \<open>TimeoutException\<close> of the wait is logged and dropped.\<close>

definition wait_for_page_load :: "unit res \<Rightarrow> unit res" where
  "wait_for_page_load ready =
     (case ready of
        Inl e \<Rightarrow> if e = TimeoutException then Inr () else Inl e
      | Inr u \<Rightarrow> Inr u)"

text \<open>\<open>_safe_click\<close>: its handler logs and raises the same exception again.\<close>

definition safe_click :: "unit res \<Rightarrow> unit res \<Rightarrow> unit res \<Rightarrow> unit res" where
  "safe_click clickable scroll click =
     bind_res clickable (\<lambda>_. bind_res scroll (\<lambda>_. click))"

text \<open>\<open>navigate_to_most_active\<close>: its handler logs and raises the same exception again.\<close>

definition navigate_to_most_active :: "nav_obs \<Rightarrow> unit res" where
  "navigate_to_most_active n =
     bind_res (get_base n) (\<lambda>_.
     bind_res (wait_for_page_load (ready_after_get n)) (\<lambda>_.
     bind_res (nav_container n) (\<lambda>_.
     bind_res (markets_visible n) (\<lambda>_.
     bind_res (markets_hover n) (\<lambda>_.
     bind_res (stocks_visible n) (\<lambda>_.
     bind_res (stocks_hover n) (\<lambda>_.
     bind_res (trending_clickable n) (\<lambda>_.
     bind_res (trending_click n) (\<lambda>_.
     bind_res (wait_for_page_load (ready_after_trending n)) (\<lambda>_.
     bind_res (safe_click (tab_clickable n) (tab_scroll n) (tab_click n)) (\<lambda>_.
       wait_for_page_load (ready_after_tab n))))))))))))"

section \<open>The scraper object, \<open>close\<close> and \<open>run\<close>\<close>

text \<open>
  The state a run works on:
  \<^item> \<open>driver\<close>: the truth value of \<open>self.driver\<close>, which \<open>close\<close> tests;
  \<open>__init__\<close> sets the attribute to the driver object and nothing resets it;
  \<^item> \<open>session_open\<close>: the browser session is alive; \<open>quit_calls\<close>: how often
    \<open>self.driver.quit()\<close> has been called;
  \<^item> \<open>nav\<close>, \<open>pages\<close>, \<open>nexts\<close>: what the browser shows to the navigation, to
    the \<open>k\<close>-th extraction attempt and to the \<open>k\<close>-th call of
    \<open>go_to_next_page\<close>; \<open>page_clock\<close> and \<open>next_clock\<close> count the attempts and
    calls made;
  \<^item> \<open>recursion_room\<close>: how many nested calls of \<open>scrape_current_page\<close> the
    interpreter's recursion limit allows where \<open>run\<close> calls it;
  \<^item> \<open>store\<close>: the list objects that are shared with the caller, by address.
    The only one is \<open>all_data\<close>: \<open>run\<close> yields the object itself and goes on
    appending to it. The dicts in it are never written after they are built, so
    they stand in the lists as values.
\<close>

type_synonym addr = nat

record world =
  driver :: bool
  session_open :: bool
  quit_calls :: nat
  nav :: nav_obs
  pages :: "nat \<Rightarrow> page_obs"
  page_clock :: nat
  nexts :: "nat \<Rightarrow> next_obs"
  next_clock :: nat
  recursion_room :: nat
  store :: "raw_row list list"

text \<open>
  \<open>self.driver.quit()\<close> on the Chrome driver of \<open>__init__\<close>. Selenium's
  Chromium \<open>quit\<close> sends the quit command inside \<open>try ... except Exception: pass\<close>
  and then stops the driver service, so it returns whether or not the session is
  still alive, and the session is gone afterwards.
\<close>

definition quit :: "world \<Rightarrow> world res" where
  "quit w = Inr (w\<lparr>session_open := False, quit_calls := Suc (quit_calls w)\<rparr>)"

text \<open>\<open>close\<close>, lines 225-229.\<close>

definition close :: "world \<Rightarrow> world res" where
  "close w = (if driver w then bind_res (quit w) (\<lambda>w'. Inr w') else Inr w)"

text \<open>
  The tuple that \<open>run\<close> yields, \<open>(page_num, len(all_data), all_data)\<close>: the third
  component is the list object \<open>all_data\<close>, that is, its address.
\<close>

record run_progress =
  pageNumber :: int
  cumulativeRowCount :: int
  rowsSoFar :: addr

text \<open>The local variables of \<open>run\<close> that live across a \<open>yield\<close>.\<close>

record frame =
  all_data :: addr
  page_num :: int

text \<open>
  \<open>run\<close> is a generator. Its states are: created and not yet started; suspended
  at the \<open>yield\<close> of line 249 with its frame; finished. One call of \<open>next\<close> on it
  either yields a tuple, or ends the generator (\<open>StopIteration\<close>), or raises.
\<close>

datatype gen = Created | Suspended frame | Finished

datatype next_result = Yield run_progress | StopIteration | Raise exn

text \<open>\<open>self.go_to_next_page()\<close> on the state: it reads the browser once.\<close>

definition go_to_next_page_on :: "world \<Rightarrow> bool res \<times> world" where
  "go_to_next_page_on w =
     (go_to_next_page (nexts w (next_clock w)), w\<lparr>next_clock := Suc (next_clock w)\<rparr>)"

text \<open>
  The way out of \<open>run\<close>: the \<open>finally\<close> clause calls \<open>self.close()\<close>, then the
  generator is finished. An exception of \<open>close\<close> would leave the generator.
\<close>

definition finish :: "world \<Rightarrow> next_result \<times> world \<times> gen" where
  "finish w =
     (case close w of
        Inl e \<Rightarrow> (Raise e, w, Finished)
      | Inr w' \<Rightarrow> (StopIteration, w', Finished))"

text \<open>
  Lines 243-249: extract the page, extend \<open>all_data\<close> in place, and yield. The
  result is the tuple yielded and the state at that moment. When the extraction
  raises (the \<open>RecursionError\<close> of its retries), the exception goes to the handler
  of line 256, which logs, and then to \<open>finally\<close>. The address in the frame is the
  one that \<open>run\<close> got for \<open>all_data = []\<close>, so it is always an address of the store.
\<close>

definition scrape_and_yield :: "world \<Rightarrow> frame \<Rightarrow> next_result \<times> world \<times> gen" where
  "scrape_and_yield w fr =
     (case scrape_current_page (recursion_room w) (pages w) (page_clock w) of
        (Inl critical_error, k) \<Rightarrow> finish (w\<lparr>page_clock := k\<rparr>)
      | (Inr page_data, k) \<Rightarrow>
          let a = all_data fr;
              extended = (store w)[a := store w ! a @ page_data];
              w' = w\<lparr>page_clock := k, store := extended\<rparr>
          in (Yield \<lparr>pageNumber = page_num fr,
                       cumulativeRowCount = int (length (extended ! a)),
                       rowsSoFar = a\<rparr>,
              w', Suspended fr))"

text \<open>
  One call of \<open>next\<close> on the generator \<open>run()\<close>.
  \<^item> From \<open>Created\<close>: lines 236-249. \<open>all_data = []\<close> makes a new list object;
    an exception of the navigation goes to the handler of line 256, which
    logs, and then to \<open>finally\<close>.
  \<^item> From \<open>Suspended\<close>: lines 251-254 and the next round of the loop. \<open>False\<close>
    from \<open>go_to_next_page\<close> breaks out of the loop to \<open>finally\<close>; an exception
    would go to the handler and then to \<open>finally\<close>.
  \<^item> From \<open>Finished\<close>: \<open>StopIteration\<close> again.
\<close>

fun run_next :: "world \<Rightarrow> gen \<Rightarrow> next_result \<times> world \<times> gen" where
  "run_next w Created =
     (let a = length (store w);
          w0 = w\<lparr>store := store w @ [[]]\<rparr>;
          fr = \<lparr>all_data = a, page_num = 1\<rparr>
      in case navigate_to_most_active (nav w0) of
           Inl critical_error \<Rightarrow> finish w0
         | Inr _ \<Rightarrow> scrape_and_yield w0 fr)"
| "run_next w (Suspended fr) =
     (case go_to_next_page_on w of
        (Inl critical_error, w1) \<Rightarrow> finish w1
      | (Inr advanced, w1) \<Rightarrow>
          if \<not> advanced then finish w1
          else scrape_and_yield w1 (fr\<lparr>page_num := page_num fr + 1\<rparr>))"
| "run_next w Finished = (StopIteration, w, Finished)"

text \<open>
  The caller's loop \<open>for page, total, current_data in scraper.run()\<close>, cut after
  \<open>n\<close> tuples: the tuples received, each with the state at the moment it was
  handed over. The list ends where the generator ends or raises.
\<close>

fun received :: "nat \<Rightarrow> world \<Rightarrow> gen \<Rightarrow> (run_progress \<times> world) list" where
  "received 0 w g = []"
| "received (Suc n) w g =
     (case run_next w g of
        (Yield ev, w', g') \<Rightarrow> (ev, w') # received n w' g'
      | _ \<Rightarrow> [])"

text \<open>The state after \<open>n\<close> calls of \<open>next\<close>.\<close>

fun after_calls :: "nat \<Rightarrow> world \<Rightarrow> gen \<Rightarrow> world \<times> gen" where
  "after_calls 0 w g = (w, g)"
| "after_calls (Suc n) w g =
     (case run_next w g of (r, w', g') \<Rightarrow> after_calls n w' g')"

section \<open>Notions used to state the properties, and sample inputs\<close>

text \<open>
  An extraction attempt is stale when \<open>StaleElementReferenceException\<close> leaves its
  \<open>try\<close> body. A snapshot is a table as it stands, given by the texts of the cells
  of its body rows; \<open>snapshot\<close> is the attempt that reads it with no call failing.
  \<open>spec_raw_row\<close> is the \<open>RawRow\<close> that the specification describes for a row of
  cell texts.
\<close>

definition stale :: "page_obs \<Rightarrow> bool" where
  "stale p \<longleftrightarrow> snd (scrape_attempt p) = Some StaleElementReferenceException"

definition snapshot :: "pystr list list \<Rightarrow> page_obs" where
  "snapshot rows =
     \<lparr>table_visible = Inr (), table_rows = Inr (map (\<lambda>cols. Inr (map Inr cols)) rows)\<rparr>"

definition spec_raw_row :: "pystr list \<Rightarrow> raw_row" where
  "spec_raw_row cols =
     [(''symbol'', strip (cols ! 0)), (''name'', strip (cols ! 1)),
      (''price'', strip (cols ! 3)), (''change'', strip (cols ! 4)),
      (''volume'', strip (cols ! 6)), (''market_cap'', strip (cols ! 8)),
      (''pe_ratio'', strip (cols ! 9))]"

text \<open>
  Sample inputs: an attempt that finds a row stale; the cells of two data rows and
  of a three-cell row; the rows expected from them; a browser that is stale at the
  first attempt and shows the three rows afterwards; one that is stale at every
  attempt.
\<close>

definition stale_page :: page_obs where
  "stale_page =
     \<lparr>table_visible = Inr (), table_rows = Inr [Inl StaleElementReferenceException]\<rparr>"

definition aapl_cells :: "pystr list" where
  "aapl_cells = map str_of
     [''AAPL'', ''Apple Inc.'', [], '' 189.95 '', ''+1.20'', ''+0.64%'', ''52.1M'',
      ''55.3M'', ''2.95T'', ''31.2'']"

definition short_cells :: "pystr list" where
  "short_cells = map str_of [''Advertisement'', [], []]"

definition msft_cells :: "pystr list" where
  "msft_cells = map str_of
     [''MSFT'', ''Microsoft Corporation'', [], ''415.10'', ''-2.31'', ''-0.55%'',
      ''21.4M'', ''20.9M'', ''3.08T'', ''35.9'']"

definition aapl_row :: raw_row where
  "aapl_row =
     [(''symbol'', str_of ''AAPL''), (''name'', str_of ''Apple Inc.''),
      (''price'', str_of ''189.95''), (''change'', str_of ''+1.20''),
      (''volume'', str_of ''52.1M''), (''market_cap'', str_of ''2.95T''),
      (''pe_ratio'', str_of ''31.2'')]"

definition msft_row :: raw_row where
  "msft_row =
     [(''symbol'', str_of ''MSFT''), (''name'', str_of ''Microsoft Corporation''),
      (''price'', str_of ''415.10''), (''change'', str_of ''-2.31''),
      (''volume'', str_of ''21.4M''), (''market_cap'', str_of ''3.08T''),
      (''pe_ratio'', str_of ''35.9'')]"

definition retry_pages :: "nat \<Rightarrow> page_obs" where
  "retry_pages i = (if i = 0 then stale_page else snapshot [aapl_cells, short_cells, msft_cells])"

definition always_stale :: "nat \<Rightarrow> page_obs" where
  "always_stale k = stale_page"

text \<open>
  The causes for which the specification says \<open>go_to_next_page\<close> returns false:
  the wait for the next control timed out (the control is absent or never became
  clickable), the control's class holds \<open>disabled\<close>, or a fingerprint was taken and
  the wait for the first row to differ from it timed out.
\<close>

definition control_disabled :: "next_obs \<Rightarrow> bool" where
  "control_disabled obs =
     (case button_class obs of
        Inr (Some c) \<Rightarrow> contains (str_of ''disabled'') c
      | _ \<Rightarrow> False)"

definition change_wait_timed_out :: "next_obs \<Rightarrow> bool" where
  "change_wait_timed_out obs =
     (case first_rows obs of
        Inr (Inr old # _) \<Rightarrow>
          old \<noteq> [] \<and>
          wait_until (\<lambda>p. has_table_changed p old) (polls obs) = Inl TimeoutException
      | _ \<Rightarrow> False)"

definition spec_false_cause :: "next_obs \<Rightarrow> bool" where
  "spec_false_cause obs \<longleftrightarrow>
     next_button obs = Inl TimeoutException \<or> control_disabled obs \<or>
     change_wait_timed_out obs"

text \<open>
  Sample calls of \<open>go_to_next_page\<close>: one that advances (the first poll still
  shows the old first row, the second finds the table stale, the third shows a
  new first row); one where the next control never becomes clickable; one where
  the first row is stale when its text is read.
\<close>

definition next_ok :: next_obs where
  "next_ok =
     \<lparr>first_rows = Inr [Inr (str_of ''AAPL Apple Inc. 189.95'')],
      next_button = Inr (),
      button_class = Inr (Some (str_of ''icon-btn next'')),
      scroll_script = Inr (),
      click_script = Inr (),
      polls = [Inr [Inr (str_of ''AAPL Apple Inc. 189.95'')],
               Inl StaleElementReferenceException,
               Inr [Inr (str_of ''NVDA NVIDIA Corporation 120.40'')]]\<rparr>"

definition next_absent :: next_obs where
  "next_absent = next_ok\<lparr>next_button := Inl TimeoutException\<rparr>"

definition next_stale_row :: next_obs where
  "next_stale_row = next_ok\<lparr>first_rows := Inr [Inl StaleElementReferenceException]\<rparr>"

text \<open>
  A sample run: the navigation succeeds (the first ready-state wait times out,
  which is only logged), the listing has two pages, and the next control is gone
  on the second. \<open>two_page_world_done\<close> is the state that the run leaves.
  \<open>nav_fails\<close> is a navigation whose Markets menu never shows;
  \<open>nav_fault_world\<close> is the same scraper on a browser where that happens, and
  \<open>nav_fault_world_done\<close> the state that its run leaves. \<open>stale_world\<close> is the
  same scraper on a browser whose table is stale at every attempt, and
  \<open>stale_world_done\<close> the state that its run leaves. The room of 989 nested
  calls is what a plain script leaves of the default limit of 1000.
\<close>

definition nav_ok :: nav_obs where
  "nav_ok =
     \<lparr>get_base = Inr (), ready_after_get = Inl TimeoutException, nav_container = Inr (),
      markets_visible = Inr (), markets_hover = Inr (), stocks_visible = Inr (),
      stocks_hover = Inr (), trending_clickable = Inr (), trending_click = Inr (),
      ready_after_trending = Inr (), tab_clickable = Inr (), tab_scroll = Inr (),
      tab_click = Inr (), ready_after_tab = Inr ()\<rparr>"

definition nav_fails :: nav_obs where
  "nav_fails = nav_ok\<lparr>markets_visible := Inl TimeoutException\<rparr>"

definition nvda_cells :: "pystr list" where
  "nvda_cells = map str_of
     [''NVDA'', ''NVIDIA Corporation'', [], ''120.40'', ''+3.02'', ''+2.57%'',
      ''310.5M'', ''290.1M'', ''2.96T'', ''70.4'']"

definition nvda_row :: raw_row where
  "nvda_row =
     [(''symbol'', str_of ''NVDA''), (''name'', str_of ''NVIDIA Corporation''),
      (''price'', str_of ''120.40''), (''change'', str_of ''+3.02''),
      (''volume'', str_of ''310.5M''), (''market_cap'', str_of ''2.96T''),
      (''pe_ratio'', str_of ''70.4'')]"

definition listing_pages :: "nat \<Rightarrow> page_obs" where
  "listing_pages k =
     (if k = 0 then snapshot [aapl_cells, short_cells, msft_cells] else snapshot [nvda_cells])"

definition listing_nexts :: "nat \<Rightarrow> next_obs" where
  "listing_nexts k = (if k = 0 then next_ok else next_absent)"

definition two_page_world :: world where
  "two_page_world =
     \<lparr>driver = True, session_open = True, quit_calls = 0, nav = nav_ok,
      pages = listing_pages, page_clock = 0, nexts = listing_nexts, next_clock = 0,
      recursion_room = 989, store = []\<rparr>"

definition two_page_world_done :: world where
  "two_page_world_done =
     two_page_world\<lparr>session_open := False, quit_calls := 1, page_clock := 2,
       next_clock := 2, store := [[aapl_row, msft_row, nvda_row]]\<rparr>"

definition nav_fault_world :: world where
  "nav_fault_world = two_page_world\<lparr>nav := nav_fails\<rparr>"

definition nav_fault_world_done :: world where
  "nav_fault_world_done =
     nav_fault_world\<lparr>session_open := False, quit_calls := 1, store := [[]]\<rparr>"

definition stale_world :: world where
  "stale_world = two_page_world\<lparr>pages := always_stale\<rparr>"

definition stale_world_done :: world where
  "stale_world_done =
     stale_world\<lparr>session_open := False, quit_calls := 1, page_clock := 989,
       store := [[]]\<rparr>"

text \<open>
  \<open>progress_events n w\<close> are the first \<open>n\<close> tuples of a run started in \<open>w\<close>.
  \<open>in_sequence p c a es\<close> says of tuples received, each with the state at the
  moment it was handed over, that their page numbers are \<open>p\<close>, \<open>p + 1\<close>, ...,
  that each carries the list at \<open>a\<close> and the length this list has at that moment,
  and that these lengths start at \<open>c\<close> or more and never decrease.
\<close>

definition progress_events :: "nat \<Rightarrow> world \<Rightarrow> run_progress list" where
  "progress_events n w = map fst (received n w Created)"

fun in_sequence :: "int \<Rightarrow> nat \<Rightarrow> addr \<Rightarrow> (run_progress \<times> world) list \<Rightarrow> bool" where
  "in_sequence p c a [] = True"
| "in_sequence p c a ((ev, w) # es) =
     (pageNumber ev = p \<and> rowsSoFar ev = a \<and> a < length (store w) \<and>
      cumulativeRowCount ev = int (length (store w ! a)) \<and> c \<le> length (store w ! a) \<and>
      in_sequence (p + 1) (length (store w ! a)) a es)"

section \<open>Page extraction: properties\<close>

lemma scrape_stale_step:
  "stale (ps k) \<Longrightarrow>
     scrape_current_page (Suc room) ps k = scrape_current_page room ps (Suc k)"
  by (auto simp: stale_def split: prod.splits option.splits)

lemma scrape_not_stale:
  "\<not> stale (ps k) \<Longrightarrow>
     scrape_current_page (Suc room) ps k = (Inr (fst (scrape_attempt (ps k))), Suc k)"
  by (auto simp: stale_def split: prod.splits option.splits)

lemma scrape_stale_steps:
  "(\<And>j. j < n \<Longrightarrow> stale (ps (k + j))) \<Longrightarrow>
     scrape_current_page (n + room) ps k = scrape_current_page room ps (k + n)"
proof (induction n arbitrary: k)
  case 0
  then show ?case by simp
next
  case (Suc n)
  have "stale (ps k)" using Suc.prems [of 0] by simp
  then have "scrape_current_page (Suc (n + room)) ps k =
      scrape_current_page (n + room) ps (Suc k)"
    by (rule scrape_stale_step)
  also have "\<dots> = scrape_current_page room ps (Suc k + n)"
  proof (rule Suc.IH)
    fix j assume "j < n"
    then show "stale (ps (Suc k + j))" using Suc.prems [of "Suc j"] by simp
  qed
  finally show ?case by simp
qed

lemma scrape_all_stale:
  assumes "\<And>j. j < room \<Longrightarrow> stale (ps (k + j))"
  shows "scrape_current_page room ps k = (Inl RecursionError, k + room)"
  using scrape_stale_steps [of room ps k 0] assms by simp

lemma scrape_first_not_stale:
  assumes "n < room" and "\<And>j. j < n \<Longrightarrow> stale (ps (k + j))" and "\<not> stale (ps (k + n))"
  shows "scrape_current_page room ps k =
           (Inr (fst (scrape_attempt (ps (k + n)))), Suc (k + n))"
proof -
  from assms(1) obtain r where r: "room = n + Suc r"
    by (auto dest: less_imp_Suc_add)
  have "scrape_current_page (n + Suc r) ps k = scrape_current_page (Suc r) ps (k + n)"
    using assms(2) by (rule scrape_stale_steps)
  also have "\<dots> = (Inr (fst (scrape_attempt (ps (k + n)))), Suc (k + n))"
    using assms(3) by (rule scrape_not_stale)
  finally show ?thesis unfolding r .
qed

lemma cell_text_clean:
  "i < length cols \<Longrightarrow> cell_text (map Inr cols) i = Inr (strip (cols ! i))"
  by (simp add: cell_text_def bind_res_def)

lemma stock_data_clean:
  "10 \<le> length cols \<Longrightarrow> stock_data (map Inr cols) = Inr (spec_raw_row cols)"
proof -
  assume "10 \<le> length cols"
  then have "0 < length cols" "1 < length cols" "3 < length cols" "4 < length cols"
    "6 < length cols" "8 < length cols" "9 < length cols"
    by auto
  then show ?thesis
    by (simp add: stock_data_def spec_raw_row_def cell_text_clean bind_res_def)
qed

lemma scrape_rows_clean:
  "scrape_rows (map (\<lambda>cols. Inr (map Inr cols)) rows) data =
     (data @ map spec_raw_row (filter (\<lambda>cols. 10 \<le> length cols) rows), None)"
proof (induction rows arbitrary: data)
  case Nil
  then show ?case by simp
next
  case (Cons cols rows)
  show ?case
  proof (cases "length cols < 10")
    case True
    then show ?thesis by (simp add: Cons.IH)
  next
    case False
    then have "10 \<le> length cols" by simp
    then show ?thesis by (simp add: Cons.IH stock_data_clean)
  qed
qed

lemma scrape_attempt_snapshot:
  "scrape_attempt (snapshot rows) =
     (map spec_raw_row (filter (\<lambda>cols. 10 \<le> length cols) rows), None)"
  by (simp add: scrape_attempt_def snapshot_def scrape_rows_clean)

lemma snapshot_not_stale: "\<not> stale (snapshot rows)"
  by (simp add: stale_def scrape_attempt_snapshot)

lemma scrape_rows_emits_long_rows_only:
  "scrape_rows rows data = (out, x) \<Longrightarrow>
     \<exists>new. out = data @ new \<and>
       (\<forall>sd\<in>set new. \<exists>cols. Inr cols \<in> set rows \<and> 10 \<le> length cols \<and>
          stock_data cols = Inr sd)"
proof (induction rows arbitrary: data)
  case Nil
  then show ?case by simp
next
  case (Cons r rows)
  show ?case
  proof (cases r)
    case (Inl e)
    with Cons.prems show ?thesis by simp
  next
    case (Inr cols)
    show ?thesis
    proof (cases "length cols < 10")
      case True
      with Cons.prems Inr have "scrape_rows rows data = (out, x)" by simp
      from Cons.IH [OF this] obtain new where "out = data @ new"
        "\<forall>sd\<in>set new. \<exists>cols. Inr cols \<in> set rows \<and> 10 \<le> length cols \<and>
            stock_data cols = Inr sd"
        by blast
      then have "out = data @ new \<and>
        (\<forall>sd\<in>set new. \<exists>cols. Inr cols \<in> set (r # rows) \<and> 10 \<le> length cols \<and>
            stock_data cols = Inr sd)"
        by (metis list.set_intros(2))
      then show ?thesis by blast
    next
      case False
      show ?thesis
      proof (cases "stock_data cols")
        case (Inl e)
        with Cons.prems Inr False show ?thesis by simp
      next
        case sd: (Inr sd)
        with Cons.prems Inr False have "scrape_rows rows (data @ [sd]) = (out, x)" by simp
        from Cons.IH [OF this] obtain new where new: "out = (data @ [sd]) @ new"
          "\<forall>sd\<in>set new. \<exists>cols. Inr cols \<in> set rows \<and> 10 \<le> length cols \<and>
              stock_data cols = Inr sd"
          by blast
        have "out = data @ (sd # new)" using new(1) by simp
        moreover have "\<forall>s\<in>set (sd # new). \<exists>cols. Inr cols \<in> set (r # rows) \<and>
            10 \<le> length cols \<and> stock_data cols = Inr s"
          using new(2) sd Inr False by auto
        ultimately show ?thesis by blast
      qed
    qed
  qed
qed

lemma stale_stale_page: "stale stale_page"
  by (simp add: stale_def stale_page_def scrape_attempt_def)

text \<open>
  C1. Page extraction on a snapshot returns one \<open>RawRow\<close> for each row of at least
  ten cells and none for a shorter row, in the order of the rows. This holds
  when the snapshot is read at the first attempt, and when it is read after
  stale attempts that the recursion limit leaves room for.
\<close>

theorem scrape_current_page_skips_short_rows:
  assumes "n < room" and "\<forall>j<n. stale (ps (k + j))" and "ps (k + n) = snapshot rows"
  shows "scrape_current_page room ps k =
           (Inr (map spec_raw_row (filter (\<lambda>cols. 10 \<le> length cols) rows)), Suc (k + n))"
proof -
  have "\<not> stale (ps (k + n))"
    using assms(3) by (simp add: snapshot_not_stale)
  with assms(1,2) have "scrape_current_page room ps k =
      (Inr (fst (scrape_attempt (ps (k + n)))), Suc (k + n))"
    by (intro scrape_first_not_stale) simp_all
  then show ?thesis using assms(3) by (simp add: scrape_attempt_snapshot)
qed

theorem scrape_current_page_skips_short_rows_witness:
  "(1::nat) < 989 \<and> stale (retry_pages 0) \<and>
   retry_pages 1 = snapshot [aapl_cells, short_cells, msft_cells] \<and>
   scrape_current_page 989 retry_pages 0 = (Inr [aapl_row, msft_row], 2)"
proof -
  have h0: "(1::nat) < 989" by simp
  have h1: "\<forall>j<1. stale (retry_pages (0 + j))"
    by (simp add: retry_pages_def stale_stale_page)
  have h2: "retry_pages (0 + 1) = snapshot [aapl_cells, short_cells, msft_cells]"
    by (simp add: retry_pages_def)
  have "scrape_current_page 989 retry_pages 0 =
          (Inr (map spec_raw_row
                  (filter (\<lambda>cols. 10 \<le> length cols) [aapl_cells, short_cells, msft_cells])),
           Suc (0 + 1))"
    using scrape_current_page_skips_short_rows [OF h0 h1 h2] .
  then show ?thesis
    using h1 h2
    by (simp add: spec_raw_row_def aapl_cells_def short_cells_def msft_cells_def
        aapl_row_def msft_row_def strip_def str_of_def isspace_def)
qed

text \<open>
  C2. For a row of at least ten cells, the \<open>RawRow\<close> that page extraction builds
  has exactly the keys symbol, name, price, change, volume, market_cap and
  pe_ratio, holding the stripped texts of the cells 0, 1, 3, 4, 6, 8 and 9; the
  values are the strings themselves.
\<close>

theorem raw_row_columns:
  assumes "10 \<le> length cols"
  shows "stock_data (map Inr cols) =
           Inr [(''symbol'', strip (cols ! 0)), (''name'', strip (cols ! 1)),
                (''price'', strip (cols ! 3)), (''change'', strip (cols ! 4)),
                (''volume'', strip (cols ! 6)), (''market_cap'', strip (cols ! 8)),
                (''pe_ratio'', strip (cols ! 9))] \<and>
         scrape_attempt (snapshot [cols]) =
           ([[(''symbol'', strip (cols ! 0)), (''name'', strip (cols ! 1)),
              (''price'', strip (cols ! 3)), (''change'', strip (cols ! 4)),
              (''volume'', strip (cols ! 6)), (''market_cap'', strip (cols ! 8)),
              (''pe_ratio'', strip (cols ! 9))]], None)"
  using assms stock_data_clean [OF assms]
  by (simp add: scrape_attempt_snapshot spec_raw_row_def)

theorem raw_row_columns_witness:
  "10 \<le> length aapl_cells \<and> stock_data (map Inr aapl_cells) = Inr aapl_row \<and>
   scrape_attempt (snapshot [aapl_cells]) = ([aapl_row], None)"
proof -
  have h: "10 \<le> length aapl_cells" by (simp add: aapl_cells_def)
  show ?thesis
    using h raw_row_columns [OF h]
    by (simp add: aapl_cells_def aapl_row_def strip_def str_of_def isspace_def)
qed




section \<open>Pagination: properties\<close>

lemma next_ok_true: "go_to_next_page next_ok = Inr True"
  by (simp add: go_to_next_page_def go_to_next_page_body_def next_ok_def bind_res_def
      first_row_text_def disabled_in_def has_table_changed_def has_table_changed_body_def
      str_of_def)

lemma next_absent_false: "go_to_next_page next_absent = Inr False"
  by (simp add: go_to_next_page_def go_to_next_page_body_def next_absent_def next_ok_def
      bind_res_def first_row_text_def)

lemma next_stale_row_body: "go_to_next_page_body next_stale_row = Inl StaleElementReferenceException"
  by (simp add: go_to_next_page_body_def next_stale_row_def next_ok_def bind_res_def
      first_row_text_def)

lemma next_absent_spec_cause: "spec_false_cause next_absent"
  by (simp add: spec_false_cause_def next_absent_def)

text \<open>
  C4, as the code has it. \<open>go_to_next_page\<close> always returns a boolean. It returns
  true exactly when every step of the call succeeds: the rows are found and the
  text of the first one is read, the next control becomes clickable, its class
  is read and does not hold \<open>disabled\<close>, the two scripts run, and, when the
  fingerprint is a non-empty string, a poll within the timeout shows a first row
  that differs from it. In every other case it returns false: for each cause the
  specification lists, and also when any step raises any other exception.
\<close>

theorem go_to_next_page_true_iff:
  "(go_to_next_page obs = Inr True \<or> go_to_next_page obs = Inr False) \<and>
   (go_to_next_page obs = Inr True \<longleftrightarrow>
      (\<exists>rows fp c.
         first_rows obs = Inr rows \<and> first_row_text rows = Inr fp \<and>
         next_button obs = Inr () \<and> button_class obs = Inr (Some c) \<and>
         \<not> contains (str_of ''disabled'') c \<and>
         scroll_script obs = Inr () \<and> click_script obs = Inr () \<and>
         (fp = None \<or> fp = Some [] \<or>
          (\<exists>old. fp = Some old \<and>
             wait_until (\<lambda>p. has_table_changed p old) (polls obs) = Inr ())))) \<and>
   (spec_false_cause obs \<longrightarrow> go_to_next_page obs = Inr False)"
proof (intro conjI)
  show "go_to_next_page obs = Inr True \<or> go_to_next_page obs = Inr False"
    by (auto simp: go_to_next_page_def split: sum.splits)
next
  show "go_to_next_page obs = Inr True \<longleftrightarrow>
      (\<exists>rows fp c.
         first_rows obs = Inr rows \<and> first_row_text rows = Inr fp \<and>
         next_button obs = Inr () \<and> button_class obs = Inr (Some c) \<and>
         \<not> contains (str_of ''disabled'') c \<and>
         scroll_script obs = Inr () \<and> click_script obs = Inr () \<and>
         (fp = None \<or> fp = Some [] \<or>
          (\<exists>old. fp = Some old \<and>
             wait_until (\<lambda>p. has_table_changed p old) (polls obs) = Inr ())))"
    by (auto simp: go_to_next_page_def go_to_next_page_body_def bind_res_def disabled_in_def
        split: sum.splits option.splits if_splits)
next
  show "spec_false_cause obs \<longrightarrow> go_to_next_page obs = Inr False"
    by (auto simp: go_to_next_page_def go_to_next_page_body_def bind_res_def
        spec_false_cause_def control_disabled_def change_wait_timed_out_def
        first_row_text_def disabled_in_def
        split: sum.splits option.splits if_splits list.splits)
qed

theorem go_to_next_page_true_iff_witness:
  "spec_false_cause next_absent \<and> go_to_next_page next_absent = Inr False \<and>
   go_to_next_page next_ok = Inr True"
proof -
  have "go_to_next_page next_absent = Inr False"
    using go_to_next_page_true_iff [of next_absent] next_absent_spec_cause by blast
  moreover have "go_to_next_page next_ok = Inr True"
    using go_to_next_page_true_iff [of next_ok]
    by (simp add: next_ok_def first_row_text_def bind_res_def has_table_changed_def
        has_table_changed_body_def str_of_def)
  ultimately show ?thesis using next_absent_spec_cause by simp
qed

text \<open>
  C4 as stated fails: when the first row is stale at the moment its text is read,
  the call returns false although the next control is there and clickable, it is
  not disabled, and no wait for a change timed out.
\<close>

theorem go_to_next_page_false_without_listed_cause:
  "go_to_next_page next_stale_row = Inr False \<and> \<not> spec_false_cause next_stale_row"
proof -
  have "go_to_next_page next_stale_row = Inr False"
    by (simp add: go_to_next_page_def next_stale_row_body)
  moreover have "\<not> spec_false_cause next_stale_row"
    by (simp add: spec_false_cause_def control_disabled_def change_wait_timed_out_def
        next_stale_row_def next_ok_def str_of_def)
  ultimately show ?thesis by simp
qed

text \<open>
  C10. \<open>go_to_next_page\<close> returns a boolean for every outcome of the driver calls
  it makes and never raises; whenever its body is left by an exception, whatever
  the exception, it returns false. In particular it returns false when finding
  the rows, reading the first row's text, waiting for the next control, reading
  its class, or one of the two scripts fails.
\<close>

theorem go_to_next_page_never_raises:
  "(go_to_next_page obs = Inr True \<or> go_to_next_page obs = Inr False) \<and>
   (\<forall>e. go_to_next_page_body obs = Inl e \<longrightarrow> go_to_next_page obs = Inr False) \<and>
   (\<forall>e. first_rows obs = Inl e \<or> next_button obs = Inl e \<or> button_class obs = Inl e \<or>
        scroll_script obs = Inl e \<or> click_script obs = Inl e \<longrightarrow>
        go_to_next_page obs = Inr False) \<and>
   (\<forall>rows e. first_rows obs = Inr rows \<and> first_row_text rows = Inl e \<longrightarrow>
        go_to_next_page obs = Inr False)"
proof (intro conjI allI impI)
  show "go_to_next_page obs = Inr True \<or> go_to_next_page obs = Inr False"
    by (auto simp: go_to_next_page_def split: sum.splits)
next
  fix e assume "go_to_next_page_body obs = Inl e"
  then show "go_to_next_page obs = Inr False"
    by (simp add: go_to_next_page_def)
next
  fix e
  assume "first_rows obs = Inl e \<or> next_button obs = Inl e \<or> button_class obs = Inl e \<or>
        scroll_script obs = Inl e \<or> click_script obs = Inl e"
  then show "go_to_next_page obs = Inr False"
    by (auto simp: go_to_next_page_def go_to_next_page_body_def bind_res_def
        split: sum.splits)
next
  fix rows e
  assume "first_rows obs = Inr rows \<and> first_row_text rows = Inl e"
  then show "go_to_next_page obs = Inr False"
    by (auto simp: go_to_next_page_def go_to_next_page_body_def bind_res_def)
qed

theorem go_to_next_page_never_raises_witness:
  "go_to_next_page_body next_stale_row = Inl StaleElementReferenceException \<and>
   go_to_next_page next_stale_row = Inr False"
  using go_to_next_page_never_raises [of next_stale_row] next_stale_row_body by simp

section \<open>The run: properties\<close>

lemma scrape_first:
  "scrape_current_page 989 listing_pages 0 = (Inr [aapl_row, msft_row], 1)"
proof -
  have "\<not> stale (listing_pages (0 + 0))"
    by (simp add: listing_pages_def snapshot_not_stale)
  then have "scrape_current_page 989 listing_pages 0 =
      (Inr (fst (scrape_attempt (listing_pages (0 + 0)))), Suc (0 + 0))"
    by (intro scrape_first_not_stale) simp_all
  then show ?thesis
    by (simp add: listing_pages_def scrape_attempt_snapshot spec_raw_row_def aapl_cells_def
        short_cells_def msft_cells_def aapl_row_def msft_row_def strip_def str_of_def
        isspace_def)
qed

lemma scrape_second:
  "scrape_current_page 989 listing_pages (Suc 0) = (Inr [nvda_row], 2)"
proof -
  have "\<not> stale (listing_pages (Suc 0 + 0))"
    by (simp add: listing_pages_def snapshot_not_stale)
  then have "scrape_current_page 989 listing_pages (Suc 0) =
      (Inr (fst (scrape_attempt (listing_pages (Suc 0 + 0)))), Suc (Suc 0 + 0))"
    by (intro scrape_first_not_stale) simp_all
  then show ?thesis
    by (simp add: listing_pages_def scrape_attempt_snapshot spec_raw_row_def nvda_cells_def
        nvda_row_def strip_def str_of_def isspace_def)
qed

lemma scrape_always_stale:
  "scrape_current_page 989 always_stale 0 = (Inl RecursionError, 989)"
  using scrape_all_stale [of 989 always_stale 0]
  by (simp add: always_stale_def stale_stale_page)

lemma nav_ok_returns: "navigate_to_most_active nav_ok = Inr ()"
  by (simp add: navigate_to_most_active_def nav_ok_def bind_res_def wait_for_page_load_def
      safe_click_def)

lemma nav_fails_raises: "navigate_to_most_active nav_fails = Inl TimeoutException"
  by (simp add: navigate_to_most_active_def nav_fails_def nav_ok_def bind_res_def
      wait_for_page_load_def)

lemma finish_not_yield: "finish w \<noteq> (Yield ev, w', g')"
  by (simp add: finish_def split: sum.splits)

lemma scrape_and_yield_Yield:
  assumes "scrape_and_yield w fr = (Yield ev, w', g')" and "all_data fr < length (store w)"
  shows "g' = Suspended fr \<and> pageNumber ev = page_num fr \<and>
           rowsSoFar ev = all_data fr \<and> all_data fr < length (store w') \<and>
           cumulativeRowCount ev = int (length (store w' ! all_data fr)) \<and>
           length (store w ! all_data fr) \<le> length (store w' ! all_data fr)"
proof (cases "scrape_current_page (recursion_room w) (pages w) (page_clock w)")
  case (Pair res k)
  show ?thesis
  proof (cases res)
    case (Inl e)
    with Pair assms(1) have "finish (w\<lparr>page_clock := k\<rparr>) = (Yield ev, w', g')"
      by (simp add: scrape_and_yield_def)
    then show ?thesis by (simp add: finish_not_yield)
  next
    case (Inr page_data)
    with Pair assms show ?thesis
      by (auto simp: scrape_and_yield_def Let_def)
  qed
qed

lemma run_next_suspended_yield:
  assumes "run_next w (Suspended fr) = (Yield ev, w', g')"
    and "all_data fr < length (store w)"
  shows "g' = Suspended (fr\<lparr>page_num := page_num fr + 1\<rparr>) \<and>
         pageNumber ev = page_num fr + 1 \<and> rowsSoFar ev = all_data fr \<and>
         all_data fr < length (store w') \<and>
         cumulativeRowCount ev = int (length (store w' ! all_data fr)) \<and>
         length (store w ! all_data fr) \<le> length (store w' ! all_data fr)"
proof -
  obtain b w1 where g: "go_to_next_page_on w = (b, w1)" by (cases "go_to_next_page_on w")
  then have w1: "store w1 = store w" by (auto simp: go_to_next_page_on_def)
  from assms(1) g have
    "scrape_and_yield w1 (fr\<lparr>page_num := page_num fr + 1\<rparr>) = (Yield ev, w', g')"
    by (auto simp: finish_not_yield split: sum.splits if_splits)
  from scrape_and_yield_Yield [OF this] assms(2) w1 show ?thesis by auto
qed

lemma received_suspended_in_sequence:
  "all_data fr < length (store w) \<Longrightarrow>
     in_sequence (page_num fr + 1) (length (store w ! all_data fr)) (all_data fr)
       (received n w (Suspended fr))"
proof (induction n arbitrary: w fr)
  case 0
  then show ?case by simp
next
  case (Suc n)
  show ?case
  proof (cases "\<exists>ev w' g'. run_next w (Suspended fr) = (Yield ev, w', g')")
    case False
    then have "received (Suc n) w (Suspended fr) = []"
      by (auto simp del: run_next.simps split: prod.splits next_result.splits)
    then show ?thesis by simp
  next
    case True
    then obtain ev w' g' where st: "run_next w (Suspended fr) = (Yield ev, w', g')"
      by blast
    note props = run_next_suspended_yield [OF st Suc.prems]
    let ?fr = "fr\<lparr>page_num := page_num fr + 1\<rparr>"
    have rec: "received (Suc n) w (Suspended fr) = (ev, w') # received n w' (Suspended ?fr)"
      using st props by (simp del: run_next.simps)
    have "in_sequence (page_num ?fr + 1) (length (store w' ! all_data ?fr)) (all_data ?fr)
            (received n w' (Suspended ?fr))"
      using props by (intro Suc.IH) simp
    then show ?thesis using props rec by simp
  qed
qed

lemma received_created_in_sequence:
  "in_sequence 1 0 (length (store w)) (received n w Created)"
proof (cases n)
  case 0
  then show ?thesis by simp
next
  case (Suc m)
  let ?w0 = "w\<lparr>store := store w @ [[]]\<rparr>"
  let ?fr = "\<lparr>all_data = length (store w), page_num = 1\<rparr>"
  show ?thesis
  proof (cases "\<exists>ev w' g'. run_next w Created = (Yield ev, w', g')")
    case False
    then have "received (Suc m) w Created = []"
      by (auto simp del: run_next.simps split: prod.splits next_result.splits)
    then show ?thesis using Suc by simp
  next
    case True
    then obtain ev w' g' where st: "run_next w Created = (Yield ev, w', g')"
      by blast
    then have sy: "scrape_and_yield ?w0 ?fr = (Yield ev, w', g')"
      by (auto simp: Let_def finish_not_yield split: sum.splits)
    have valid: "all_data ?fr < length (store ?w0)" by simp
    note props = scrape_and_yield_Yield [OF sy valid]
    have rec: "received (Suc m) w Created = (ev, w') # received m w' (Suspended ?fr)"
      using st props by (simp del: run_next.simps)
    have "in_sequence (page_num ?fr + 1) (length (store w' ! all_data ?fr)) (all_data ?fr)
            (received m w' (Suspended ?fr))"
      using props by (intro received_suspended_in_sequence) simp
    then show ?thesis using props rec Suc by simp
  qed
qed

lemma in_sequence_page:
  "in_sequence p c a es \<Longrightarrow> i < length es \<Longrightarrow> pageNumber (fst (es ! i)) = p + int i"
proof (induction es arbitrary: p c i)
  case Nil
  then show ?case by simp
next
  case (Cons e es)
  obtain ev w where e: "e = (ev, w)" by (cases e)
  show ?case
  proof (cases i)
    case 0
    then show ?thesis using Cons.prems e by simp
  next
    case (Suc j)
    then have "pageNumber (fst (es ! j)) = (p + 1) + int j"
      using Cons.prems e by (intro Cons.IH [of "p + 1" "length (store w ! a)"]) simp_all
    then show ?thesis using Suc by simp
  qed
qed

lemma in_sequence_count_ge:
  "in_sequence p c a es \<Longrightarrow> i < length es \<Longrightarrow> int c \<le> cumulativeRowCount (fst (es ! i))"
proof (induction es arbitrary: p c i)
  case Nil
  then show ?case by simp
next
  case (Cons e es)
  obtain ev w where e: "e = (ev, w)" by (cases e)
  show ?case
  proof (cases i)
    case 0
    then show ?thesis using Cons.prems e by simp
  next
    case (Suc j)
    then have "int (length (store w ! a)) \<le> cumulativeRowCount (fst (es ! j))"
      using Cons.prems e by (intro Cons.IH [of "p + 1" "length (store w ! a)"]) simp_all
    then show ?thesis using Suc Cons.prems e by simp
  qed
qed

lemma in_sequence_count_step:
  "in_sequence p c a es \<Longrightarrow> Suc i < length es \<Longrightarrow>
     cumulativeRowCount (fst (es ! i)) \<le> cumulativeRowCount (fst (es ! Suc i))"
proof (induction es arbitrary: p c i)
  case Nil
  then show ?case by simp
next
  case (Cons e es)
  obtain ev w where e: "e = (ev, w)" by (cases e)
  have tl: "in_sequence (p + 1) (length (store w ! a)) a es"
    and cnt: "cumulativeRowCount ev = int (length (store w ! a))"
    using Cons.prems(1) e by simp_all
  show ?case
  proof (cases i)
    case 0
    have "int (length (store w ! a)) \<le> cumulativeRowCount (fst (es ! 0))"
      using Cons.prems(2) 0 by (intro in_sequence_count_ge [OF tl]) simp
    then show ?thesis using 0 e cnt by simp
  next
    case (Suc j)
    then have "cumulativeRowCount (fst (es ! j)) \<le> cumulativeRowCount (fst (es ! Suc j))"
      using Cons.prems(2) by (intro Cons.IH [OF tl]) simp
    then show ?thesis using Suc by simp
  qed
qed

lemma in_sequence_count_is_length:
  "in_sequence p c a es \<Longrightarrow> (ev, w) \<in> set es \<Longrightarrow>
     cumulativeRowCount ev = int (length (store w ! rowsSoFar ev))"
  by (induction p c a es rule: in_sequence.induct) auto

lemma two_page_events:
  "progress_events 3 two_page_world =
     [\<lparr>pageNumber = 1, cumulativeRowCount = 2, rowsSoFar = 0\<rparr>,
      \<lparr>pageNumber = 2, cumulativeRowCount = 3, rowsSoFar = 0\<rparr>]"
  by (simp add: progress_events_def numeral_3_eq_3 two_page_world_def scrape_and_yield_def
      scrape_first scrape_second nav_ok_returns go_to_next_page_on_def listing_nexts_def
      next_ok_true next_absent_false finish_def close_def quit_def bind_res_def)

text \<open>
  C5. In the tuples that a run yields, the page number is 1 in the first and one
  more in each following tuple, and the row count never decreases from a tuple
  to the next. This holds for the first \<open>n\<close> tuples of every run, for every \<open>n\<close>.
\<close>

theorem run_pages_count_up:
  "(progress_events n w \<noteq> [] \<longrightarrow> pageNumber (progress_events n w ! 0) = 1) \<and>
   (\<forall>i. Suc i < length (progress_events n w) \<longrightarrow>
      pageNumber (progress_events n w ! Suc i) = pageNumber (progress_events n w ! i) + 1 \<and>
      cumulativeRowCount (progress_events n w ! i) \<le>
        cumulativeRowCount (progress_events n w ! Suc i))"
proof -
  note seq = received_created_in_sequence [of w n]
  have first: "pageNumber (progress_events n w ! 0) = 1" if "progress_events n w \<noteq> []"
    using in_sequence_page [OF seq, of 0] that by (simp add: progress_events_def)
  have step: "pageNumber (progress_events n w ! Suc i) = pageNumber (progress_events n w ! i) + 1 \<and>
      cumulativeRowCount (progress_events n w ! i) \<le>
        cumulativeRowCount (progress_events n w ! Suc i)"
    if "Suc i < length (progress_events n w)" for i
    using in_sequence_page [OF seq, of i] in_sequence_page [OF seq, of "Suc i"]
      in_sequence_count_step [OF seq, of i] that
    by (simp add: progress_events_def)
  show ?thesis using first step by blast
qed

theorem run_pages_count_up_witness:
  "progress_events 3 two_page_world \<noteq> [] \<and>
   pageNumber (progress_events 3 two_page_world ! 0) = 1 \<and>
   Suc 0 < length (progress_events 3 two_page_world) \<and>
   pageNumber (progress_events 3 two_page_world ! Suc 0) = 2 \<and>
   cumulativeRowCount (progress_events 3 two_page_world ! 0) \<le>
     cumulativeRowCount (progress_events 3 two_page_world ! Suc 0)"
proof -
  have ne: "progress_events 3 two_page_world \<noteq> []"
    and len: "Suc 0 < length (progress_events 3 two_page_world)"
    by (simp_all add: two_page_events)
  from run_pages_count_up [of 3 two_page_world] ne len
  have "pageNumber (progress_events 3 two_page_world ! 0) = 1"
    and "pageNumber (progress_events 3 two_page_world ! Suc 0) =
           pageNumber (progress_events 3 two_page_world ! 0) + 1"
    and "cumulativeRowCount (progress_events 3 two_page_world ! 0) \<le>
           cumulativeRowCount (progress_events 3 two_page_world ! Suc 0)"
    by blast+
  with ne len show ?thesis by simp
qed

text \<open>
  C9. In every tuple that a run yields, the row count equals the length that the
  list carried in the tuple has at the moment the tuple is handed to the caller.
\<close>

theorem run_count_is_length_when_yielded:
  "\<forall>(ev, w') \<in> set (received n w Created).
     cumulativeRowCount ev = int (length (store w' ! rowsSoFar ev))"
  using in_sequence_count_is_length [OF received_created_in_sequence [of w n]] by blast

theorem run_count_is_length_when_yielded_witness:
  "received 3 two_page_world Created \<noteq> [] \<and>
   (case hd (received 3 two_page_world Created) of
      (ev, w') \<Rightarrow> cumulativeRowCount ev = int (length (store w' ! rowsSoFar ev)))"
proof -
  have ne: "received 3 two_page_world Created \<noteq> []"
    using two_page_events by (auto simp: progress_events_def)
  then have "hd (received 3 two_page_world Created) \<in> set (received 3 two_page_world Created)"
    by simp
  with run_count_is_length_when_yielded [of 3 two_page_world] ne show ?thesis
    by (auto split: prod.splits)
qed

text \<open>
  C6 fails on the code. The tuple carries the list object \<open>all_data\<close> itself, and
  the next round of the loop appends to that object. In the sample run the first
  tuple is handed over with two rows and the count 2; once the second tuple has
  been handed over, the list of the first tuple has three rows.
\<close>

theorem run_yields_the_live_list:
  "map (\<lambda>(ev, w). (pageNumber ev, cumulativeRowCount ev, store w ! rowsSoFar ev))
     (received 3 two_page_world Created) =
     [(1, 2, [aapl_row, msft_row]), (2, 3, [aapl_row, msft_row, nvda_row])] \<and>
   map (\<lambda>(ev, w). (pageNumber ev, cumulativeRowCount ev,
                   store (snd (last (received 3 two_page_world Created))) ! rowsSoFar ev))
     (received 3 two_page_world Created) =
     [(1, 2, [aapl_row, msft_row, nvda_row]), (2, 3, [aapl_row, msft_row, nvda_row])]"
  by (simp add: numeral_3_eq_3 two_page_world_def scrape_and_yield_def scrape_first scrape_second
      nav_ok_returns go_to_next_page_on_def listing_nexts_def next_ok_true next_absent_false
      finish_def close_def quit_def bind_res_def)

section \<open>Closing the session: properties\<close>

lemma finish_closes:
  assumes "finish w = (r, w', g')" and "driver w"
  shows "g' = Finished \<and> r = StopIteration \<and> driver w' \<and>
         quit_calls w' = Suc (quit_calls w) \<and> \<not> session_open w' \<and> store w' = store w"
  using assms by (auto simp: finish_def close_def quit_def bind_res_def)

lemma scrape_and_yield_session:
  assumes "scrape_and_yield w fr = (r, w', g')" and "driver w"
  shows "driver w' \<and>
         (g' = Finished \<and> (\<forall>ev. r \<noteq> Yield ev) \<and> quit_calls w' = Suc (quit_calls w) \<and>
            \<not> session_open w' \<or>
          g' = Suspended fr \<and> (\<exists>ev. r = Yield ev) \<and> quit_calls w' = quit_calls w \<and>
            session_open w' = session_open w)"
proof (cases "scrape_current_page (recursion_room w) (pages w) (page_clock w)")
  case (Pair res k)
  show ?thesis
  proof (cases res)
    case (Inl e)
    with Pair assms(1) have "finish (w\<lparr>page_clock := k\<rparr>) = (r, w', g')"
      by (simp add: scrape_and_yield_def)
    from finish_closes [OF this] assms(2) show ?thesis by auto
  next
    case (Inr page_data)
    with Pair assms show ?thesis
      by (auto simp: scrape_and_yield_def Let_def)
  qed
qed

lemma run_next_session:
  assumes "run_next w g = (r, w', g')" and "driver w" and "g \<noteq> Finished"
  shows "driver w' \<and>
         (g' = Finished \<and> (\<forall>ev. r \<noteq> Yield ev) \<and> quit_calls w' = Suc (quit_calls w) \<and>
            \<not> session_open w' \<or>
          g' \<noteq> Finished \<and> (\<exists>ev. r = Yield ev) \<and> quit_calls w' = quit_calls w \<and>
            session_open w' = session_open w)"
proof (cases g)
  case Created
  let ?w0 = "w\<lparr>store := store w @ [[]]\<rparr>"
  let ?fr = "\<lparr>all_data = length (store w), page_num = 1\<rparr>"
  show ?thesis
  proof (cases "navigate_to_most_active (nav w)")
    case (Inl e)
    with assms(1) Created have "finish ?w0 = (r, w', g')" by (simp add: Let_def)
    from finish_closes [OF this] assms(2) show ?thesis by auto
  next
    case (Inr u)
    with assms(1) Created have "scrape_and_yield ?w0 ?fr = (r, w', g')"
      by (simp add: Let_def)
    from scrape_and_yield_session [OF this] assms(2) show ?thesis by auto
  qed
next
  case (Suspended fr)
  obtain b w1 where g: "go_to_next_page_on w = (b, w1)" by (cases "go_to_next_page_on w")
  then have w1: "driver w1 = driver w" "session_open w1 = session_open w"
    "quit_calls w1 = quit_calls w"
    by (auto simp: go_to_next_page_on_def)
  show ?thesis
  proof (cases "b = Inr True")
    case True
    with assms(1) Suspended g have
      "scrape_and_yield w1 (fr\<lparr>page_num := page_num fr + 1\<rparr>) = (r, w', g')"
      by simp
    from scrape_and_yield_session [OF this] assms(2) w1 show ?thesis by auto
  next
    case False
    with assms(1) Suspended g have "finish w1 = (r, w', g')"
      by (auto split: sum.splits if_splits)
    from finish_closes [OF this] assms(2) w1 show ?thesis by auto
  qed
next
  case Finished
  with assms(3) show ?thesis by simp
qed

lemma after_calls_finished: "after_calls n w Finished = (w, Finished)"
  by (induction n) simp_all

lemma after_calls_session:
  assumes "after_calls n w g = (w', g')" and "driver w" and "g \<noteq> Finished"
  shows "(g' = Finished \<longrightarrow> quit_calls w' = Suc (quit_calls w) \<and> \<not> session_open w') \<and>
         (g' \<noteq> Finished \<longrightarrow> quit_calls w' = quit_calls w \<and> session_open w' = session_open w)"
  using assms
proof (induction n arbitrary: w g)
  case 0
  then show ?case by simp
next
  case (Suc n)
  obtain r w1 g1 where st: "run_next w g = (r, w1, g1)"
    by (cases "run_next w g")
  with Suc.prems(1) have rest: "after_calls n w1 g1 = (w', g')"
    by (simp del: run_next.simps)
  note s = run_next_session [OF st Suc.prems(2,3)]
  show ?case
  proof (cases "g1 = Finished")
    case True
    with rest have "w' = w1" "g' = Finished" by (simp_all add: after_calls_finished)
    with s True show ?thesis by auto
  next
    case False
    with s have d: "driver w1" and same: "quit_calls w1 = quit_calls w"
      "session_open w1 = session_open w" by auto
    from Suc.IH [OF rest d False] same show ?thesis by simp
  qed
qed

lemma two_page_after_calls:
  "after_calls 3 two_page_world Created = (two_page_world_done, Finished)"
  by (simp add: numeral_3_eq_3 two_page_world_def two_page_world_done_def scrape_and_yield_def
      scrape_first scrape_second nav_ok_returns go_to_next_page_on_def listing_nexts_def
      next_ok_true next_absent_false finish_def close_def quit_def bind_res_def)

lemma nav_fault_after_calls:
  "after_calls 1 nav_fault_world Created = (nav_fault_world_done, Finished)"
  by (simp add: nav_fault_world_def nav_fault_world_done_def two_page_world_def
      nav_fails_raises finish_def close_def quit_def bind_res_def)

lemma stale_after_calls:
  "after_calls 1 stale_world Created = (stale_world_done, Finished)"
  by (simp add: stale_world_def stale_world_done_def two_page_world_def scrape_and_yield_def
      scrape_always_stale nav_ok_returns finish_def close_def quit_def bind_res_def)

text \<open>
  A call of \<open>next\<close> leaves the generator unfinished exactly when it yields: every
  other result, the end of the run or an exception, is a way out through
  \<open>finish\<close>.
\<close>

lemma run_next_yields_or_finishes:
  assumes "run_next w g = (r, w', g')"
  shows "(\<exists>ev. r = Yield ev) \<longleftrightarrow> g' \<noteq> Finished"
proof (cases g)
  case Created
  with assms show ?thesis
    by (auto simp: Let_def finish_def scrape_and_yield_def
        split: sum.splits prod.splits)
next
  case (Suspended fr)
  with assms show ?thesis
    by (auto simp: Let_def finish_def scrape_and_yield_def
        split: sum.splits prod.splits if_splits)
next
  case Finished
  with assms show ?thesis by auto
qed

text \<open>
  C7. Two calls of \<open>close\<close> in a row both return without raising, in every state,
  and neither changes the lists shared with the caller; the session is as closed
  after the second call as after the first.
\<close>

theorem close_twice:
  "\<exists>w1 w2. close w = Inr w1 \<and> close w1 = Inr w2 \<and> store w1 = store w \<and>
     store w2 = store w \<and> session_open w2 = session_open w1 \<and> driver w2 = driver w"
  by (simp add: close_def quit_def bind_res_def)

text \<open>
  C8. When a run started on a scraper with a driver has finished, by whichever
  way (\<open>go_to_next_page\<close> returned false, the navigation raised, or the page
  extraction raised), \<open>quit\<close> has been called exactly once and the session is
  closed; as long as the run has not finished, \<open>quit\<close> has not been called.
\<close>

theorem run_closes_session_once:
  assumes "after_calls n w Created = (w', g')" and "driver w"
  shows "(g' = Finished \<longrightarrow> quit_calls w' = quit_calls w + 1 \<and> \<not> session_open w') \<and>
         (g' \<noteq> Finished \<longrightarrow> quit_calls w' = quit_calls w \<and> session_open w' = session_open w)"
  using after_calls_session [OF assms] by simp

theorem run_closes_session_once_witness:
  "driver two_page_world \<and> quit_calls two_page_world = 0 \<and>
   after_calls 3 two_page_world Created = (two_page_world_done, Finished) \<and>
   quit_calls two_page_world_done = 1 \<and> \<not> session_open two_page_world_done \<and>
   driver nav_fault_world \<and> quit_calls nav_fault_world = 0 \<and>
   after_calls 1 nav_fault_world Created = (nav_fault_world_done, Finished) \<and>
   quit_calls nav_fault_world_done = 1 \<and> \<not> session_open nav_fault_world_done \<and>
   driver stale_world \<and> quit_calls stale_world = 0 \<and>
   after_calls 1 stale_world Created = (stale_world_done, Finished) \<and>
   quit_calls stale_world_done = 1 \<and> \<not> session_open stale_world_done"
proof -
  have d: "driver two_page_world" and q: "quit_calls two_page_world = 0"
    by (simp_all add: two_page_world_def)
  have d': "driver nav_fault_world" and q': "quit_calls nav_fault_world = 0"
    by (simp_all add: nav_fault_world_def two_page_world_def)
  have d'': "driver stale_world" and q'': "quit_calls stale_world = 0"
    by (simp_all add: stale_world_def two_page_world_def)
  from run_closes_session_once [OF two_page_after_calls d] q
  have a: "quit_calls two_page_world_done = 1 \<and> \<not> session_open two_page_world_done"
    by simp
  from run_closes_session_once [OF nav_fault_after_calls d'] q'
  have b: "quit_calls nav_fault_world_done = 1 \<and> \<not> session_open nav_fault_world_done"
    by simp
  from run_closes_session_once [OF stale_after_calls d''] q''
  have c: "quit_calls stale_world_done = 1 \<and> \<not> session_open stale_world_done"
    by simp
  show ?thesis
    using a b c d q d' q' d'' q'' two_page_after_calls nav_fault_after_calls
      stale_after_calls
    by simp
qed

end
